theory Spec2Isabelle
  imports Main "HOL-Library.Word"
begin

unbundle bit_operations_syntax

section \<open>Package diag: the data model\<close>

text \<open>
  The embedding follows \<^verbatim>\<open>src/diag/diag.go\<close>. Bytes are 8-bit words, the interval
  number is a 32-bit word. A \<^verbatim>\<open>time.Time\<close> is an instant, counted as an integer
  offset from the zero instant \<^verbatim>\<open>time.Time{}\<close>; locations play no part in the
  functions modelled here.
\<close>

type_synonym byte = "8 word"
type_synonym uint32 = "32 word"
type_synonym Time = int

definition zeroTime :: Time where
  "zeroTime = 0"

definition DiagnosisKeySize :: nat where
  "DiagnosisKeySize = 20"

definition defaultMaxUploadBatchSize :: nat where
  "defaultMaxUploadBatchSize = 14"

text \<open>
  The Go array type \<^verbatim>\<open>[16]byte\<close>: exactly the byte lists of length 16.
  \<open>bytes_of k\<close> is the slice \<^verbatim>\<open>k[:]\<close>. \<open>array16 src\<close> is a zeroed array after
  \<^verbatim>\<open>copy(key[:], src)\<close>: \<^verbatim>\<open>copy\<close> moves \<open>min 16 (length src)\<close> bytes and leaves
  the rest of the array zero.
\<close>

typedef key16 = "{xs :: byte list. length xs = 16}"
  by (rule exI [of _ "replicate 16 0"]) simp

definition bytes_of :: "key16 \<Rightarrow> byte list" where
  "bytes_of k = Rep_key16 k"

definition array16 :: "byte list \<Rightarrow> key16" where
  "array16 src = Abs_key16 (take 16 (src @ replicate 16 0))"

record DiagnosisKey =
  TemporaryExposureKey :: key16
  ENIntervalNumber :: uint32
  UploadedAt :: Time

text \<open>
  Errors are values. The package's two sentinels and the sentinels of \<^verbatim>\<open>io\<close> and
  \<^verbatim>\<open>context\<close> are constructors of their own, since the code compares errors by
  identity; \<open>ErrorNew\<close> is any other error made by \<^verbatim>\<open>errors.New\<close> (here or in a
  collaborator), \<open>Errorf p e\<close> is \<^verbatim>\<open>fmt.Errorf(p + "%v", e)\<close>.
\<close>

datatype error =
    EOF
  | ErrUnexpectedEOF
  | ErrNilDiagKeys
  | ErrMaxUploadExceeded
  | Canceled
  | DeadlineExceeded
  | ErrorNew string
  | Errorf string error

section \<open>The record codec\<close>

subsection \<open>encoding/binary, big endian\<close>

text \<open>
  \<^verbatim>\<open>binary.BigEndian.PutUint32(b, v)\<close> stores \<^verbatim>\<open>byte(v >> 24)\<close>, \<^verbatim>\<open>byte(v >> 16)\<close>,
  \<^verbatim>\<open>byte(v >> 8)\<close>, \<^verbatim>\<open>byte(v)\<close> at \<open>b[0..3]\<close>; \<^verbatim>\<open>Uint32(b)\<close> reads them back.
  Both panic on a slice shorter than four bytes; the callers below only pass slices of
  exactly four bytes (\<open>make_bytes 4\<close>, and a four byte sub-slice of a whole frame).
\<close>

definition make_bytes :: "nat \<Rightarrow> byte list" where
  "make_bytes n = replicate n 0"

definition PutUint32 :: "byte list \<Rightarrow> uint32 \<Rightarrow> byte list" where
  "PutUint32 b v =
     b[0 := ucast (drop_bit 24 v), 1 := ucast (drop_bit 16 v),
       2 := ucast (drop_bit 8 v), 3 := ucast v]"

fun Uint32 :: "byte list \<Rightarrow> uint32" where
  "Uint32 (b0 # b1 # b2 # b3 # bs) =
     ucast b3 OR push_bit 8 (ucast b2) OR push_bit 16 (ucast b1) OR push_bit 24 (ucast b0)"
| "Uint32 bs = 0"

subsection \<open>Readers and writers\<close>

text \<open>
  An \<^verbatim>\<open>io.Reader\<close> that comes to an end is the bytes it delivers and the error that
  ends it (\<open>EOF\<close> for a stream read to its end). \<^verbatim>\<open>ioutil.ReadAll\<close> returns what
  was read, with a nil error when the reader ended with \<open>EOF\<close>.
  \<open>NewReader b\<close> is \<^verbatim>\<open>bytes.NewReader(b)\<close>.
\<close>

record Reader =
  content :: "byte list"
  ending :: error

definition ReadAll :: "Reader \<Rightarrow> byte list \<times> error option" where
  "ReadAll r = (content r, if ending r = EOF then None else Some (ending r))"

definition NewReader :: "byte list \<Rightarrow> Reader" where
  "NewReader b = \<lparr>content = b, ending = EOF\<rparr>"

text \<open>
  An \<^verbatim>\<open>io.Writer\<close> is its \<^verbatim>\<open>Write\<close> method over the state \<open>'w\<close> of the object
  written to: it returns the count, the error and the new state.
  \<open>Buffer_Write\<close> is \<^verbatim>\<open>(*bytes.Buffer).Write\<close>, which appends and returns a nil error.
\<close>

type_synonym 'w Writer = "byte list \<Rightarrow> 'w \<Rightarrow> (nat \<times> error option) \<times> 'w"

definition Buffer_Write :: "(byte list) Writer" where
  "Buffer_Write p buf = ((length p, None), buf @ p)"

subsection \<open>ParseDiagnosisKeys\<close>

text \<open>\<open>subslice buf lo hi\<close> is \<^verbatim>\<open>buf[lo:hi]\<close>, for \<open>lo \<le> hi \<le> length buf\<close>.\<close>

definition subslice :: "'a list \<Rightarrow> nat \<Rightarrow> nat \<Rightarrow> 'a list" where
  "subslice buf lo hi = take (hi - lo) (drop lo buf)"

definition zeroDiagnosisKey :: DiagnosisKey where
  "zeroDiagnosisKey =
     \<lparr>TemporaryExposureKey = array16 [], ENIntervalNumber = 0, UploadedAt = zeroTime\<rparr>"

text \<open>The loop \<^verbatim>\<open>for i := 0; i < keyCount; i++\<close> of \<^verbatim>\<open>ParseDiagnosisKeys\<close>.\<close>

function parseLoop :: "byte list \<Rightarrow> nat \<Rightarrow> nat \<Rightarrow> DiagnosisKey list \<Rightarrow> DiagnosisKey list" where
  "parseLoop buf keyCount i diagKeys =
     (if i < keyCount then
        (let start = i * DiagnosisKeySize;
             key = array16 (subslice buf start (start + 16));
             enin = Uint32 (subslice buf (start + 16) (start + DiagnosisKeySize))
         in parseLoop buf keyCount (Suc i)
              (diagKeys[i := \<lparr>TemporaryExposureKey = key, ENIntervalNumber = enin,
                               UploadedAt = zeroTime\<rparr>]))
      else diagKeys)"
  by pat_completeness auto
termination
  by (relation "measure (\<lambda>(buf, keyCount, i, diagKeys). keyCount - i)") auto

declare parseLoop.simps [simp del]

text \<open>
  The record the loop body stores at index \<open>i\<close>, with the two sub-slices of the frame
  written as \<open>take\<close> and \<open>drop\<close>; the lemmas about the loop are stated with it.
\<close>

definition frameKey :: "byte list \<Rightarrow> nat \<Rightarrow> DiagnosisKey" where
  "frameKey buf i =
     \<lparr>TemporaryExposureKey = array16 (take 16 (drop (20 * i) buf)),
      ENIntervalNumber = Uint32 (take 4 (drop (20 * i + 16) buf)),
      UploadedAt = zeroTime\<rparr>"

definition ParseDiagnosisKeys :: "Reader \<Rightarrow> error + DiagnosisKey list" where
  "ParseDiagnosisKeys r =
     (case ReadAll r of (buf, err) \<Rightarrow>
        (let n = length buf in
         if err \<noteq> None \<and> err \<noteq> Some EOF then Inl (case err of Some e \<Rightarrow> e)
         else if n = 0 then Inl ErrUnexpectedEOF
         else if n mod DiagnosisKeySize \<noteq> 0 then Inl ErrUnexpectedEOF
         else (let keyCount = n div DiagnosisKeySize;
                   diagKeys = replicate keyCount zeroDiagnosisKey
               in Inr (parseLoop buf keyCount 0 diagKeys))))"

subsection \<open>writeDiagnosisKeys\<close>

fun writeDiagnosisKeys :: "'w Writer \<Rightarrow> DiagnosisKey list \<Rightarrow> 'w \<Rightarrow> error option \<times> 'w" where
  "writeDiagnosisKeys w [] s = (None, s)"
| "writeDiagnosisKeys w (k # ks) s =
     (case w (bytes_of (TemporaryExposureKey k)) s of
        ((_, Some err), s1) \<Rightarrow> (Some err, s1)
      | ((_, None), s1) \<Rightarrow>
          (let enin = PutUint32 (make_bytes 4) (ENIntervalNumber k) in
           case w enin s1 of
             ((_, Some err), s2) \<Rightarrow> (Some err, s2)
           | ((_, None), s2) \<Rightarrow> writeDiagnosisKeys w ks s2))"

section \<open>The service\<close>

subsection \<open>Collaborators\<close>

text \<open>
  \<^verbatim>\<open>Repository\<close> and \<^verbatim>\<open>Cache\<close> are interfaces: a value is a table of methods, each a
  function of the state of the object behind it (\<open>'r\<close> for the repository, \<open>'c\<close> for
  the cache) that returns its Go results and the new state. The context passed to the
  repository is part of what \<open>'r\<close> stands for. A method returning \<^verbatim>\<open>(value, error)\<close>
  returns the pair, the error being \<open>None\<close> for nil. The declaration of \<^verbatim>\<open>Cache\<close> is
  not in \<^verbatim>\<open>diag.go\<close>; its methods are the ones \<^verbatim>\<open>diag.go\<close> calls.
\<close>

record 'r Repository =
  repoStoreDiagnosisKeys :: "DiagnosisKey list \<Rightarrow> Time \<Rightarrow> 'r \<Rightarrow> error option \<times> 'r"
  repoFindAllDiagnosisKeys :: "'r \<Rightarrow> (DiagnosisKey list \<times> error option) \<times> 'r"
  repoLastModified :: "'r \<Rightarrow> (Time \<times> error option) \<times> 'r"

text \<open>
  An \<^verbatim>\<open>io.ReadSeeker\<close> is used through \<^verbatim>\<open>Seek(offset, whence)\<close> only, and dropped
  after the call.
\<close>

datatype ReadSeeker = ReadSeeker (Seek: "int \<Rightarrow> int \<Rightarrow> int \<times> error option")

definition SeekEnd :: int where
  "SeekEnd = 2"

record 'c Cache =
  cacheSet :: "DiagnosisKey list \<Rightarrow> Time \<Rightarrow> 'c \<Rightarrow> error option \<times> 'c"
  cacheAdd :: "DiagnosisKey list \<Rightarrow> Time \<Rightarrow> 'c \<Rightarrow> error option \<times> 'c"
  cacheReadSeeker :: "Time \<Rightarrow> 'c \<Rightarrow> ReadSeeker"
  cacheLastModified :: "'c \<Rightarrow> Time"

text \<open>
  A \<^verbatim>\<open>*zap.Logger\<close> that is not nil. What is logged through it is kept as a list of
  entries: level, message and fields.
\<close>

datatype Logger = ZapLogger

datatype level = InfoLevel | ErrorLevel

datatype zapField = ErrorField error | Int64Field string int | IntField string int

type_synonym entry = "level \<times> string \<times> zapField list"

subsection \<open>Service, Config and the state they act on\<close>

text \<open>
  \<^verbatim>\<open>uint\<close> is a natural number here: the batch size is stored and returned, never
  computed with.
\<close>

record ('r, 'c) Service =
  repo :: "'r Repository"
  cache :: "'c Cache"
  maxUploadBatchSize :: nat
  logger :: Logger

text \<open>
  In \<^verbatim>\<open>Config\<close>, \<open>cfgCache\<close> and \<open>cfgLogger\<close> may be nil (\<open>None\<close>); the repository
  is required.
\<close>

record ('r, 'c) Config =
  cfgRepository :: "'r Repository"
  cfgCache :: "'c Cache option"
  cfgMaxUploadBatchSize :: nat
  cfgLogger :: "Logger option"

text \<open>
  A goroutine started by \<^verbatim>\<open>go func() { ... }()\<close> is recorded with what its closure
  captured: the one of \<^verbatim>\<open>StoreDiagnosisKeys\<close> adds \<open>diagKeys\<close> to the cache with the
  time \<open>now\<close>, the one of \<^verbatim>\<open>NewService\<close> runs \<^verbatim>\<open>refreshCache\<close>.
\<close>

datatype goroutine = CacheAddWorker "DiagnosisKey list" Time | RefreshWorker

text \<open>
  The state outside the \<^verbatim>\<open>Service\<close> value: the repository object, the cache object
  the service points to, the log, and the goroutines started so far.
\<close>

record ('r, 'c) world =
  repoState :: 'r
  cacheState :: 'c
  logged :: "entry list"
  goroutines :: "goroutine list"

definition logInfo :: "string \<Rightarrow> zapField list \<Rightarrow> ('r, 'c) world \<Rightarrow> ('r, 'c) world" where
  "logInfo msg fs w = w\<lparr>logged := logged w @ [(InfoLevel, msg, fs)]\<rparr>"

definition logError :: "string \<Rightarrow> zapField list \<Rightarrow> ('r, 'c) world \<Rightarrow> ('r, 'c) world" where
  "logError msg fs w = w\<lparr>logged := logged w @ [(ErrorLevel, msg, fs)]\<rparr>"

subsection \<open>hydrateCache\<close>

definition hydrateCache :: "('r, 'c) Service \<Rightarrow> ('r, 'c) world \<Rightarrow> error option \<times> ('r, 'c) world" where
  "hydrateCache s w =
     (case repoFindAllDiagnosisKeys (repo s) (repoState w) of ((diagKeys, err), r1) \<Rightarrow>
        (let w1 = w\<lparr>repoState := r1\<rparr> in
         if err \<noteq> None then (err, w1)
         else
           (case repoLastModified (repo s) r1 of ((lastModified, err), r2) \<Rightarrow>
              (let w2 = w1\<lparr>repoState := r2\<rparr> in
               if err = Some ErrNilDiagKeys then (None, w2)
               else if err \<noteq> None then (err, w2)
               else
                 (case cacheSet (cache s) diagKeys lastModified (cacheState w2) of (err, c) \<Rightarrow>
                    (let w3 = w2\<lparr>cacheState := c\<rparr> in
                     if err \<noteq> None then (err, w3) else (None, w3)))))))"

subsection \<open>refreshCache\<close>

text \<open>
  What the \<^verbatim>\<open>select\<close> of the loop receives, in the order it receives it: the
  context's \<^verbatim>\<open>Done\<close> channel closed (with the value of \<^verbatim>\<open>ctx.Err()\<close>, not nil
  from then on), or a tick of the five minute ticker. The loop runs over a list of such
  events; when the list is used up the goroutine is parked in the \<^verbatim>\<open>select\<close> and
  has not returned, which is the result \<open>None\<close>. \<open>Some e\<close> is the return of \<open>e\<close>.
\<close>

datatype event = CtxDone error | Tick

fun refreshCache :: "('r, 'c) Service \<Rightarrow> event list \<Rightarrow> ('r, 'c) world \<Rightarrow> error option \<times> ('r, 'c) world" where
  "refreshCache s [] w = (None, w)"
| "refreshCache s (CtxDone ctxErr # evs) w = (Some ctxErr, w)"
| "refreshCache s (Tick # evs) w =
     (case hydrateCache s w of
        (Some err, w1) \<Rightarrow>
          refreshCache s evs (logError ''Could not refresh cache'' [ErrorField err] w1)
      | (None, w1) \<Rightarrow>
          (case Seek (cacheReadSeeker (cache s) zeroTime (cacheState w1)) 0 SeekEnd of
             (n, Some err) \<Rightarrow>
               refreshCache s evs (logError ''Could not seek cache'' [ErrorField err] w1)
           | (n, None) \<Rightarrow>
               refreshCache s evs (logInfo ''Cache refreshed.'' [Int64Field ''size'' n] w1)))"

subsection \<open>NewService\<close>

text \<open>
  The type \<^verbatim>\<open>MemoryCache\<close> is declared outside \<^verbatim>\<open>diag.go\<close>, so \<^verbatim>\<open>NewService\<close> takes
  it as the parameter \<open>memoryCache\<close>: the methods of \<^verbatim>\<open>*MemoryCache\<close> and the zero
  value \<^verbatim>\<open>MemoryCache{}\<close>. With \<open>cfgCache\<close> set, the object it points to is the
  \<open>cacheState\<close> of the world \<^verbatim>\<open>NewService\<close> starts in; with \<open>cfgCache\<close> nil a new
  object holding the zero value takes its place.
\<close>

definition NewService ::
  "'c Cache \<times> 'c \<Rightarrow> ('r, 'c) Config \<Rightarrow> ('r, 'c) world \<Rightarrow>
     (error + ('r, 'c) Service) \<times> ('r, 'c) world" where
  "NewService memoryCache cfg w =
     (case cfgLogger cfg of
        None \<Rightarrow> (Inl (ErrorNew ''diag: logger cannot be nil''), w)
      | Some lg \<Rightarrow>
          (let svc = \<lparr>repo = cfgRepository cfg,
                      cache = (case cfgCache cfg of None \<Rightarrow> fst memoryCache | Some c \<Rightarrow> c),
                      maxUploadBatchSize =
                        (if cfgMaxUploadBatchSize cfg = 0 then defaultMaxUploadBatchSize
                         else cfgMaxUploadBatchSize cfg),
                      logger = lg\<rparr>;
               w0 = (case cfgCache cfg of None \<Rightarrow> w\<lparr>cacheState := snd memoryCache\<rparr>
                     | Some c \<Rightarrow> w)
           in case hydrateCache svc w0 of
                (Some err, w1) \<Rightarrow> (Inl (Errorf ''diag: could not hydrate cache: '' err), w1)
              | (None, w1) \<Rightarrow>
                  (case Seek (cacheReadSeeker (cache svc) zeroTime (cacheState w1)) 0 SeekEnd of
                     (n, Some err) \<Rightarrow> (Inl (Errorf ''diag: could not seek cache: '' err), w1)
                   | (n, None) \<Rightarrow>
                       (let w2 = logInfo ''Cache hydrated.'' [Int64Field ''size'' n] w1
                        in (Inr svc, w2\<lparr>goroutines := goroutines w2 @ [RefreshWorker]\<rparr>)))))"

definition MaxUploadBatchSize :: "('r, 'c) Service \<Rightarrow> nat" where
  "MaxUploadBatchSize s = maxUploadBatchSize s"

subsection \<open>StoreDiagnosisKeys\<close>

text \<open>\<open>now\<close> is the reading of the clock, \<^verbatim>\<open>time.Now().UTC()\<close>.\<close>

definition StoreDiagnosisKeys ::
  "('r, 'c) Service \<Rightarrow> Time \<Rightarrow> DiagnosisKey list \<Rightarrow> ('r, 'c) world \<Rightarrow>
     error option \<times> ('r, 'c) world" where
  "StoreDiagnosisKeys s now diagKeys w =
     (case repoStoreDiagnosisKeys (repo s) diagKeys now (repoState w) of (err, r) \<Rightarrow>
        (let w1 = w\<lparr>repoState := r\<rparr> in
         if err \<noteq> None then (err, w1)
         else (None, w1\<lparr>goroutines := goroutines w1 @ [CacheAddWorker diagKeys now]\<rparr>)))"

text \<open>The body of the goroutine started by \<^verbatim>\<open>StoreDiagnosisKeys\<close>.\<close>

definition cacheAddWorker ::
  "('r, 'c) Service \<Rightarrow> DiagnosisKey list \<Rightarrow> Time \<Rightarrow> ('r, 'c) world \<Rightarrow> ('r, 'c) world" where
  "cacheAddWorker s diagKeys now w =
     (case cacheAdd (cache s) diagKeys now (cacheState w) of
        (Some err, c) \<Rightarrow> logError ''Could not add to cache.'' [ErrorField err] (w\<lparr>cacheState := c\<rparr>)
      | (None, c) \<Rightarrow>
          logInfo ''Cached new diagnosis keys.'' [IntField ''count'' (int (length diagKeys))]
            (w\<lparr>cacheState := c\<rparr>))"

text \<open>
  The body of the goroutine started by \<^verbatim>\<open>NewService\<close>, over the events its
  \<^verbatim>\<open>refreshCache\<close> receives.
\<close>

definition refreshWorker ::
  "('r, 'c) Service \<Rightarrow> event list \<Rightarrow> ('r, 'c) world \<Rightarrow> ('r, 'c) world" where
  "refreshWorker s evs w =
     (case refreshCache s evs w of
        (Some err, w1) \<Rightarrow>
          if err \<noteq> Canceled then logError ''Could not refresh cache.'' [ErrorField err] w1
          else w1
      | (None, w1) \<Rightarrow> w1)"

section \<open>Collaborators used in the examples\<close>

text \<open>
  A repository kept in memory: its state is the list of the batches stored, each with
  its time. With nothing stored, \<^verbatim>\<open>LastModified\<close> reports \<open>ErrNilDiagKeys\<close>.
\<close>

definition listRepository :: "((DiagnosisKey list \<times> Time) list) Repository" where
  "listRepository =
     \<lparr>repoStoreDiagnosisKeys = (\<lambda>diagKeys createdAt st. (None, st @ [(diagKeys, createdAt)])),
      repoFindAllDiagnosisKeys = (\<lambda>st. ((concat (map fst st), None), st)),
      repoLastModified = (\<lambda>st. if st = [] then ((zeroTime, Some ErrNilDiagKeys), st)
                                 else ((snd (last st), None), st))\<rparr>"

text \<open>A repository every call of which fails with the error \<open>e\<close>.\<close>

definition failingRepository :: "error \<Rightarrow> ((DiagnosisKey list \<times> Time) list) Repository" where
  "failingRepository e =
     \<lparr>repoStoreDiagnosisKeys = (\<lambda>diagKeys createdAt st. (Some e, st)),
      repoFindAllDiagnosisKeys = (\<lambda>st. (([], Some e), st)),
      repoLastModified = (\<lambda>st. ((zeroTime, Some e), st))\<rparr>"

text \<open>
  A cache that keeps the records and the time of the last change; its seeker reports
  the size of their encoding.
\<close>

definition listCache :: "(DiagnosisKey list \<times> Time) Cache" where
  "listCache =
     \<lparr>cacheSet = (\<lambda>diagKeys lastModified c. (None, (diagKeys, lastModified))),
      cacheAdd = (\<lambda>diagKeys uploadedAt c. (None, (fst c @ diagKeys, max (snd c) uploadedAt))),
      cacheReadSeeker = (\<lambda>since c.
         ReadSeeker (\<lambda>offset whence. (int (DiagnosisKeySize * length (fst c)) + offset, None))),
      cacheLastModified = snd\<rparr>"

text \<open>A writer into a buffer of bounded capacity: a write that does not fit fails.\<close>

definition limitedWrite :: "nat \<Rightarrow> (byte list) Writer" where
  "limitedWrite cap p buf =
     (if length buf + length p \<le> cap then ((length p, None), buf @ p)
      else ((0, Some (ErrorNew ''short write'')), buf))"

text \<open>
  A service over the repository and the cache above, one over a repository that fails,
  the world before anything is stored, and a \<^verbatim>\<open>Config\<close> that leaves the cache and the
  batch size unset.
\<close>

definition exampleService ::
  "((DiagnosisKey list \<times> Time) list, DiagnosisKey list \<times> Time) Service" where
  "exampleService =
     \<lparr>repo = listRepository, cache = listCache, maxUploadBatchSize = 14, logger = ZapLogger\<rparr>"

definition brokenService ::
  "error \<Rightarrow> ((DiagnosisKey list \<times> Time) list, DiagnosisKey list \<times> Time) Service" where
  "brokenService e =
     \<lparr>repo = failingRepository e, cache = listCache, maxUploadBatchSize = 14,
      logger = ZapLogger\<rparr>"

text \<open>A service whose cache hands out seekers that fail with the error \<open>e\<close>.\<close>

definition unseekableService ::
  "error \<Rightarrow> ((DiagnosisKey list \<times> Time) list, DiagnosisKey list \<times> Time) Service" where
  "unseekableService e =
     \<lparr>repo = listRepository,
      cache = listCache\<lparr>cacheReadSeeker :=
                (\<lambda>since c. ReadSeeker (\<lambda>offset whence. (0, Some e)))\<rparr>,
      maxUploadBatchSize = 14, logger = ZapLogger\<rparr>"

definition emptyWorld :: "((DiagnosisKey list \<times> Time) list, DiagnosisKey list \<times> Time) world" where
  "emptyWorld = \<lparr>repoState = [], cacheState = ([], zeroTime), logged = [], goroutines = []\<rparr>"

definition exampleConfig ::
  "((DiagnosisKey list \<times> Time) list, DiagnosisKey list \<times> Time) Config" where
  "exampleConfig =
     \<lparr>cfgRepository = listRepository, cfgCache = None, cfgMaxUploadBatchSize = 0,
      cfgLogger = Some ZapLogger\<rparr>"

section \<open>Lemmas about the codec\<close>

subsection \<open>Arrays of sixteen bytes and big-endian words\<close>

lemma bytes_of_array16: "bytes_of (array16 src) = take 16 (src @ replicate 16 0)"
  by (simp add: bytes_of_def array16_def Abs_key16_inverse)

lemma length_bytes_of: "length (bytes_of k) = 16"
  using Rep_key16 [of k] by (simp add: bytes_of_def)

lemma array16_bytes_of: "array16 (bytes_of k @ rest) = k"
  using length_bytes_of [of k] by (simp add: bytes_of_def array16_def Rep_key16_inverse)

lemma bytes_of_inject: "bytes_of k = bytes_of k' \<Longrightarrow> k = k'"
  by (simp add: bytes_of_def Rep_key16_inject)

lemma PutUint32_make_bytes:
  "PutUint32 (make_bytes 4) v =
     [ucast (drop_bit 24 v), ucast (drop_bit 16 v), ucast (drop_bit 8 v), ucast v]"
  by (simp add: PutUint32_def make_bytes_def eval_nat_numeral)

lemma Uint32_bytes:
  "Uint32 (ucast (drop_bit 24 v) # ucast (drop_bit 16 v) # ucast (drop_bit 8 v) # ucast v # bs) = (v :: uint32)"
proof (rule bit_word_eqI)
  fix n :: nat
  assume "n < LENGTH(32)"
  then have n: "n < 32" by simp
  then consider "n < 8" | "8 \<le> n" "n < 16" | "16 \<le> n" "n < 24" | "24 \<le> n" "n < 32"
    by linarith
  then show "bit (Uint32 (ucast (drop_bit 24 v) # ucast (drop_bit 16 v) # ucast (drop_bit 8 v) # ucast v # bs)) n = bit v n"
  proof cases
    case 1 then show ?thesis by (simp add: bit_simps)
  next
    case 2 then show ?thesis by (auto simp add: bit_simps)
  next
    case 3 then show ?thesis by (auto simp add: bit_simps)
  next
    case 4 then show ?thesis by (auto simp add: bit_simps)
  qed
qed

lemma Uint32_PutUint32: "Uint32 (PutUint32 (make_bytes 4) v @ rest) = v"
  by (simp add: PutUint32_make_bytes Uint32_bytes del: Uint32.simps)

lemma byte_val: "unat (ucast (drop_bit k (v::uint32)) :: byte) = (unat v div 2 ^ k) mod 256"
proof -
  have "unat (ucast (drop_bit k v) :: byte) = take_bit 8 (unat (drop_bit k v))"
    by (simp add: unsigned_ucast_eq)
  also have "\<dots> = take_bit 8 (drop_bit k (unat v))"
    by (simp only: unat_drop_bit_eq)
  also have "\<dots> = (unat v div 2 ^ k) mod 256"
    by (simp add: take_bit_eq_mod drop_bit_eq_div)
  finally show ?thesis .
qed

lemma base256:
  "(n::nat) div 16777216 * 16777216 + n div 65536 mod 256 * 65536 +
     n div 256 mod 256 * 256 + n mod 256 = n"
proof -
  define A B C r0 r1 r2 where "A = n div 256" and "B = n div 65536" and "C = n div 16777216"
    and "r0 = n mod 256" and "r1 = n div 256 mod 256" and "r2 = n div 65536 mod 256"
  have e0: "n = A * 256 + r0"
    by (simp add: A_def r0_def)
  have "n div 256 div 256 = n div 65536"
    by (simp add: div_mult2_eq [symmetric])
  then have e1: "A = B * 256 + r1"
    using div_mult_mod_eq [of "n div 256" 256] by (simp add: A_def B_def r1_def)
  have "n div 65536 div 256 = n div 16777216"
    by (simp add: div_mult2_eq [symmetric])
  then have e2: "B = C * 256 + r2"
    using div_mult_mod_eq [of "n div 65536" 256] by (simp add: B_def C_def r2_def)
  have "C * 16777216 + r2 * 65536 + r1 * 256 + r0 = n"
    using e0 e1 e2 by linarith
  then show ?thesis
    by (simp only: A_def B_def C_def r0_def r1_def r2_def)
qed

lemma PutUint32_big_endian:
  "PutUint32 (make_bytes 4) v = [b0, b1, b2, b3] \<Longrightarrow>
     unat b0 * 2 ^ 24 + unat b1 * 2 ^ 16 + unat b2 * 2 ^ 8 + unat b3 = unat v"
proof -
  assume a: "PutUint32 (make_bytes 4) v = [b0, b1, b2, b3]"
  have lt: "unat v < 2 ^ 32" using unsigned_less [of v, where 'a = nat] by simp
  have b3: "unat (ucast v :: byte) = unat v mod 256"
    by (simp add: unsigned_ucast_eq take_bit_eq_mod)
  from a have "b0 = ucast (drop_bit 24 v)" "b1 = ucast (drop_bit 16 v)" "b2 = ucast (drop_bit 8 v)" "b3 = ucast v"
    by (simp_all add: PutUint32_make_bytes)
  then show ?thesis
    using lt base256 [of "unat v"] by (simp add: byte_val b3)
qed

subsection \<open>The parsing loop\<close>

lemma parseLoop_step:
  "i < keyCount \<Longrightarrow>
     parseLoop buf keyCount i diagKeys = parseLoop buf keyCount (Suc i) (diagKeys[i := frameKey buf i])"
  by (subst parseLoop.simps)
     (simp add: Let_def frameKey_def subslice_def DiagnosisKeySize_def mult.commute)

lemma parseLoop_done: "\<not> i < keyCount \<Longrightarrow> parseLoop buf keyCount i diagKeys = diagKeys"
  by (subst parseLoop.simps) simp

lemma parseLoop_eq:
  "i \<le> keyCount \<Longrightarrow> length diagKeys = keyCount \<Longrightarrow>
     parseLoop buf keyCount i diagKeys = take i diagKeys @ map (frameKey buf) [i..<keyCount]"
proof (induction buf keyCount i diagKeys rule: parseLoop.induct)
  case (1 buf keyCount i diagKeys)
  show ?case
  proof (cases "i < keyCount")
    case True
    let ?ks = "diagKeys[i := frameKey buf i]"
    have step: "parseLoop buf keyCount i diagKeys = parseLoop buf keyCount (Suc i) ?ks"
      using True by (rule parseLoop_step)
    have ih: "parseLoop buf keyCount (Suc i) ?ks
                = take (Suc i) ?ks @ map (frameKey buf) [Suc i..<keyCount]"
      using "1.IH" [OF True refl refl refl] True "1.prems"
      by (simp add: frameKey_def subslice_def DiagnosisKeySize_def mult.commute)
    have tk: "take (Suc i) ?ks = take i diagKeys @ [frameKey buf i]"
      using True "1.prems" by (simp add: take_Suc_conv_app_nth)
    have up: "[i..<keyCount] = i # [Suc i..<keyCount]"
      using True by (simp add: upt_conv_Cons)
    show ?thesis
      by (simp add: step ih tk up)
  next
    case False
    then have "i = keyCount" using "1.prems" by simp
    then show ?thesis
      using "1.prems" by (simp add: parseLoop_done)
  qed
qed

lemma ParseDiagnosisKeys_frames:
  assumes "ending r = EOF" and "length (content r) = 20 * k" and "1 \<le> k"
  shows "ParseDiagnosisKeys r = Inr (map (frameKey (content r)) [0..<k])"
  using assms
  by (simp add: ParseDiagnosisKeys_def ReadAll_def Let_def DiagnosisKeySize_def parseLoop_eq)

lemma ParseDiagnosisKeys_reject:
  assumes "ending r = EOF" and "length (content r) = 0 \<or> length (content r) mod 20 \<noteq> 0"
  shows "ParseDiagnosisKeys r = Inl ErrUnexpectedEOF"
  using assms
  by (auto simp add: ParseDiagnosisKeys_def ReadAll_def Let_def DiagnosisKeySize_def)

lemma ParseDiagnosisKeys_fault:
  assumes "ending r \<noteq> EOF"
  shows "ParseDiagnosisKeys r = Inl (ending r)"
  using assms
  by (simp add: ParseDiagnosisKeys_def ReadAll_def Let_def)

subsection \<open>Writing, and reading back what was written\<close>

lemma writeDiagnosisKeys_Buffer:
  "writeDiagnosisKeys Buffer_Write rs buf =
     (None, buf @ concat (map (\<lambda>k. bytes_of (TemporaryExposureKey k) @
                                      PutUint32 (make_bytes 4) (ENIntervalNumber k)) rs))"
  by (induction rs arbitrary: buf) (simp_all add: Buffer_Write_def Let_def)

lemma writeDiagnosisKeys_error_from_Write:
  "fst (writeDiagnosisKeys w rs s) = Some e \<Longrightarrow> \<exists>p s'. snd (fst (w p s')) = Some e"
proof (induction rs arbitrary: s)
  case Nil
  then show ?case by simp
next
  case (Cons k ks)
  obtain n e1 s1 where w1: "w (bytes_of (TemporaryExposureKey k)) s = ((n, e1), s1)"
    by (metis surj_pair)
  obtain m e2 s2 where w2: "w (PutUint32 (make_bytes 4) (ENIntervalNumber k)) s1 = ((m, e2), s2)"
    by (metis surj_pair)
  show ?case
  proof (cases e1)
    case (Some a)
    then have "a = e" using Cons.prems by (simp add: w1)
    then have "snd (fst (w (bytes_of (TemporaryExposureKey k)) s)) = Some e"
      using Some by (simp add: w1)
    then show ?thesis by blast
  next
    case None
    note e1 = this
    show ?thesis
    proof (cases e2)
      case (Some a)
      then have "a = e" using Cons.prems e1 by (simp add: w1 w2 Let_def)
      then have "snd (fst (w (PutUint32 (make_bytes 4) (ENIntervalNumber k)) s1)) = Some e"
        using Some by (simp add: w2)
      then show ?thesis by blast
    next
      case None
      then have "fst (writeDiagnosisKeys w ks s2) = Some e"
        using Cons.prems e1 by (simp add: w1 w2 Let_def)
      then show ?thesis by (rule Cons.IH)
    qed
  qed
qed

lemma writeDiagnosisKeys_no_fault:
  "(\<And>p s'. snd (fst (w p s')) = None) \<Longrightarrow> fst (writeDiagnosisKeys w rs s) = None"
proof (induction rs arbitrary: s)
  case Nil
  then show ?case by simp
next
  case (Cons k ks)
  have a: "snd (fst (w (bytes_of (TemporaryExposureKey k)) s)) = None"
    by (rule Cons.prems)
  obtain n s1 where w1: "w (bytes_of (TemporaryExposureKey k)) s = ((n, None), s1)"
    using a by (cases "w (bytes_of (TemporaryExposureKey k)) s") auto
  have b: "snd (fst (w (PutUint32 (make_bytes 4) (ENIntervalNumber k)) s1)) = None"
    by (rule Cons.prems)
  obtain m s2 where w2: "w (PutUint32 (make_bytes 4) (ENIntervalNumber k)) s1 = ((m, None), s2)"
    using b by (cases "w (PutUint32 (make_bytes 4) (ENIntervalNumber k)) s1") auto
  show ?case
    using Cons.IH [OF Cons.prems] by (simp add: w1 w2 Let_def)
qed

lemma length_PutUint32: "length (PutUint32 (make_bytes 4) v) = 4"
  by (simp add: PutUint32_make_bytes)

lemma drop_concat_frames:
  "(\<And>x. length (f x) = n) \<Longrightarrow> drop (n * i) (concat (map f xs)) = concat (map f (drop i xs))"
proof (induction xs arbitrary: i)
  case Nil
  then show ?case by simp
next
  case (Cons x xs)
  show ?case
  proof (cases i)
    case 0
    then show ?thesis by simp
  next
    case (Suc j)
    have "drop (n * Suc j) (f x @ concat (map f xs)) = drop (n * j) (concat (map f xs))"
      using Cons.prems [of x] by simp
    then show ?thesis
      using Cons.IH [OF Cons.prems, of j] Suc by simp
  qed
qed

lemma length_concat_frames:
  "(\<And>x. length (f x) = n) \<Longrightarrow> length (concat (map f xs)) = n * length xs"
  by (induction xs) simp_all

lemma frameKey_encoded:
  assumes "i < length rs"
  shows "frameKey (concat (map (\<lambda>k. bytes_of (TemporaryExposureKey k) @
                                      PutUint32 (make_bytes 4) (ENIntervalNumber k)) rs)) i
           = (rs ! i)\<lparr>UploadedAt := zeroTime\<rparr>"
proof -
  let ?f = "\<lambda>k. bytes_of (TemporaryExposureKey k) @ PutUint32 (make_bytes 4) (ENIntervalNumber k)"
  let ?buf = "concat (map ?f rs)"
  have len: "\<And>x. length (?f x) = 20"
    by (simp add: length_bytes_of length_PutUint32)
  have dr: "drop i rs = rs ! i # drop (Suc i) rs"
    using assms by (simp add: Cons_nth_drop_Suc)
  have d0: "drop (20 * i) ?buf = ?f (rs ! i) @ concat (map ?f (drop (Suc i) rs))"
    using drop_concat_frames [of ?f 20 i rs, OF len] by (simp add: dr)
  have key: "array16 (take 16 (drop (20 * i) ?buf)) = TemporaryExposureKey (rs ! i)"
    using array16_bytes_of [of "TemporaryExposureKey (rs ! i)" "[]"]
    by (simp add: d0 length_bytes_of)
  have "drop (20 * i + 16) ?buf = drop 16 (drop (20 * i) ?buf)"
    by (simp add: add.commute)
  then have d16: "drop (20 * i + 16) ?buf
      = PutUint32 (make_bytes 4) (ENIntervalNumber (rs ! i)) @ concat (map ?f (drop (Suc i) rs))"
    by (simp add: d0 length_bytes_of)
  have enin: "Uint32 (take 4 (drop (20 * i + 16) ?buf)) = ENIntervalNumber (rs ! i)"
    using Uint32_PutUint32 [of "ENIntervalNumber (rs ! i)" "[]"]
    by (simp add: d16 length_PutUint32)
  show ?thesis
    by (simp add: frameKey_def key enin)
qed

lemma roundtrip_Buffer:
  assumes "rs \<noteq> []"
  shows "ParseDiagnosisKeys (NewReader (snd (writeDiagnosisKeys Buffer_Write rs [])))
           = Inr (map (\<lambda>k. k\<lparr>UploadedAt := zeroTime\<rparr>) rs)"
proof -
  let ?f = "\<lambda>k. bytes_of (TemporaryExposureKey k) @ PutUint32 (make_bytes 4) (ENIntervalNumber k)"
  let ?buf = "concat (map ?f rs)"
  have len: "\<And>x. length (?f x) = 20"
    by (simp add: length_bytes_of length_PutUint32)
  have l: "length (content (NewReader ?buf)) = 20 * length rs"
    using length_concat_frames [of ?f 20 rs, OF len] by (simp add: NewReader_def)
  have k: "1 \<le> length rs"
    using assms by (cases rs) simp_all
  have "ParseDiagnosisKeys (NewReader ?buf) = Inr (map (frameKey ?buf) [0..<length rs])"
    using ParseDiagnosisKeys_frames [of "NewReader ?buf" "length rs", OF _ l k]
    by (simp add: NewReader_def)
  also have "map (frameKey ?buf) [0..<length rs] = map (\<lambda>k. k\<lparr>UploadedAt := zeroTime\<rparr>) rs"
    by (rule nth_equalityI) (simp_all add: frameKey_encoded)
  finally show ?thesis
    by (simp add: writeDiagnosisKeys_Buffer)
qed

section \<open>Lemmas about the service\<close>

lemma StoreDiagnosisKeys_repo:
  "fst (StoreDiagnosisKeys s now diagKeys w)
     = fst (repoStoreDiagnosisKeys (repo s) diagKeys now (repoState w)) \<and>
   repoState (snd (StoreDiagnosisKeys s now diagKeys w))
     = snd (repoStoreDiagnosisKeys (repo s) diagKeys now (repoState w))"
  by (cases "repoStoreDiagnosisKeys (repo s) diagKeys now (repoState w)")
     (auto simp add: StoreDiagnosisKeys_def Let_def)

lemma StoreDiagnosisKeys_example:
  "StoreDiagnosisKeys exampleService now diagKeys emptyWorld =
     (None, emptyWorld\<lparr>repoState := [(diagKeys, now)],
                         goroutines := [CacheAddWorker diagKeys now]\<rparr>)"
  by (simp add: StoreDiagnosisKeys_def exampleService_def emptyWorld_def listRepository_def Let_def)

lemma logged_hydrateCache: "logged (snd (hydrateCache s w)) = logged w"
  by (simp add: hydrateCache_def Let_def split: prod.splits)

lemma goroutines_hydrateCache: "goroutines (snd (hydrateCache s w)) = goroutines w"
  by (simp add: hydrateCache_def Let_def split: prod.splits)

lemma hydrateCache_FindAll_error:
  assumes "snd (fst (repoFindAllDiagnosisKeys (repo s) (repoState w))) = Some e"
  shows "fst (hydrateCache s w) = Some e"
proof -
  obtain ks e1 r1 where f: "repoFindAllDiagnosisKeys (repo s) (repoState w) = ((ks, e1), r1)"
    by (metis surj_pair)
  with assms have "e1 = Some e" by simp
  then show ?thesis
    by (simp add: hydrateCache_def f Let_def)
qed

lemma hydrateCache_LastModified_nil:
  assumes "snd (fst (repoFindAllDiagnosisKeys (repo s) (repoState w))) = None"
    and "snd (fst (repoLastModified (repo s)
                 (snd (repoFindAllDiagnosisKeys (repo s) (repoState w))))) = Some ErrNilDiagKeys"
  shows "fst (hydrateCache s w) = None \<and> cacheState (snd (hydrateCache s w)) = cacheState w"
proof -
  obtain ks e1 r1 where f: "repoFindAllDiagnosisKeys (repo s) (repoState w) = ((ks, e1), r1)"
    by (metis surj_pair)
  obtain t e2 r2 where l: "repoLastModified (repo s) r1 = ((t, e2), r2)"
    by (metis surj_pair)
  from assms f l have "e1 = None" and "e2 = Some ErrNilDiagKeys"
    by simp_all
  then show ?thesis
    by (simp add: hydrateCache_def f l Let_def)
qed

lemma refreshCache_Tick:
  "\<exists>w'. refreshCache s (Tick # evs) w = refreshCache s evs w' \<and>
        length (logged w') = Suc (length (logged w))"
proof -
  obtain err w1 where h: "hydrateCache s w = (err, w1)"
    by (metis surj_pair)
  have l: "logged w1 = logged w"
    using logged_hydrateCache [of s w] by (simp add: h)
  obtain n serr where k: "Seek (cacheReadSeeker (cache s) zeroTime (cacheState w1)) 0 SeekEnd = (n, serr)"
    by (metis surj_pair)
  show ?thesis
  proof (cases err)
    case (Some e)
    let ?w = "logError ''Could not refresh cache'' [ErrorField e] w1"
    have "refreshCache s (Tick # evs) w = refreshCache s evs ?w"
      by (simp add: h Some)
    moreover have "length (logged ?w) = Suc (length (logged w))"
      by (simp add: logError_def l)
    ultimately show ?thesis by blast
  next
    case None
    note hn = this
    show ?thesis
    proof (cases serr)
      case (Some e)
      let ?w = "logError ''Could not seek cache'' [ErrorField e] w1"
      have "refreshCache s (Tick # evs) w = refreshCache s evs ?w"
        by (simp add: h hn k Some)
      moreover have "length (logged ?w) = Suc (length (logged w))"
        by (simp add: logError_def l)
      ultimately show ?thesis by blast
    next
      case None
      let ?w = "logInfo ''Cache refreshed.'' [Int64Field ''size'' n] w1"
      have "refreshCache s (Tick # evs) w = refreshCache s evs ?w"
        by (simp add: h hn k None)
      moreover have "length (logged ?w) = Suc (length (logged w))"
        by (simp add: logInfo_def l)
      ultimately show ?thesis by blast
    qed
  qed
qed

lemma refreshCache_running:
  "(fst (refreshCache s evs w) = None) = (\<forall>ctxErr. CtxDone ctxErr \<notin> set evs)"
proof (induction evs arbitrary: w)
  case Nil
  then show ?case by simp
next
  case (Cons ev evs)
  show ?case
  proof (cases ev)
    case (CtxDone e)
    then show ?thesis by auto
  next
    case Tick
    obtain w' where "refreshCache s (Tick # evs) w = refreshCache s evs w'"
      using refreshCache_Tick [of s evs w] by blast
    then show ?thesis
      using Cons.IH [of w'] Tick by simp
  qed
qed

lemma refreshCache_cancelled:
  "fst (refreshCache s (replicate n Tick @ CtxDone ctxErr # rest) w) = Some ctxErr"
proof (induction n arbitrary: w)
  case 0
  then show ?case by simp
next
  case (Suc n)
  obtain w' where "refreshCache s (Tick # replicate n Tick @ CtxDone ctxErr # rest) w
      = refreshCache s (replicate n Tick @ CtxDone ctxErr # rest) w'"
    using refreshCache_Tick [of s "replicate n Tick @ CtxDone ctxErr # rest" w] by blast
  then show ?case
    using Suc.IH [of w'] by simp
qed

lemma refreshCache_logged:
  "length (logged (snd (refreshCache s evs w)))
     = length (logged w) + length (takeWhile (\<lambda>ev. ev = Tick) evs)"
proof (induction evs arbitrary: w)
  case Nil
  then show ?case by simp
next
  case (Cons ev evs)
  show ?case
  proof (cases ev)
    case (CtxDone e)
    then show ?thesis by simp
  next
    case Tick
    obtain w' where "refreshCache s (Tick # evs) w = refreshCache s evs w'"
        and "length (logged w') = Suc (length (logged w))"
      using refreshCache_Tick [of s evs w] by blast
    then show ?thesis
      using Cons.IH [of w'] Tick by simp
  qed
qed

lemma refreshCache_hydrate_failure:
  assumes "fst (hydrateCache s w) = Some err"
  shows "refreshCache s (Tick # evs) w =
           refreshCache s evs
             (logError ''Could not refresh cache'' [ErrorField err] (snd (hydrateCache s w)))"
  using assms by (cases "hydrateCache s w") simp

lemma refreshCache_seek_failure:
  assumes "fst (hydrateCache s w) = None"
    and "snd (Seek (cacheReadSeeker (cache s) zeroTime (cacheState (snd (hydrateCache s w))))
                0 SeekEnd) = Some err"
  shows "refreshCache s (Tick # evs) w =
           refreshCache s evs
             (logError ''Could not seek cache'' [ErrorField err] (snd (hydrateCache s w)))"
proof -
  obtain w1 where h: "hydrateCache s w = (None, w1)"
    using assms(1) by (cases "hydrateCache s w") simp
  obtain n where k: "Seek (cacheReadSeeker (cache s) zeroTime (cacheState w1)) 0 SeekEnd = (n, Some err)"
    using assms(2) h by (cases "Seek (cacheReadSeeker (cache s) zeroTime (cacheState w1)) 0 SeekEnd") simp
  show ?thesis
    by (simp add: h k)
qed

section \<open>The claims\<close>

text \<open>
  Claim C4. For a byte stream that the reader delivers to its end, \<^verbatim>\<open>ParseDiagnosisKeys\<close>
  returns \<^verbatim>\<open>io.ErrUnexpectedEOF\<close> exactly when the length of the stream is zero or not a
  multiple of 20; and for a stream of length \<open>20 * k\<close> with \<open>1 \<le> k\<close> it returns
  exactly \<open>k\<close> records, the \<open>i\<close>-th being read from the \<open>i\<close>-th frame of 20 bytes:
  its first 16 bytes are the key, its last 4 the interval, and \<open>UploadedAt\<close> is the zero
  time.
\<close>

theorem ParseDiagnosisKeys_length_law:
  assumes "ending r = EOF"
  shows "((ParseDiagnosisKeys r = Inl ErrUnexpectedEOF) =
            (length (content r) = 0 \<or> length (content r) mod 20 \<noteq> 0)) \<and>
         (\<forall>k. 1 \<le> k \<and> length (content r) = 20 * k \<longrightarrow>
            (\<exists>ks. ParseDiagnosisKeys r = Inr ks \<and> length ks = k \<and>
               (\<forall>i<k. ks ! i =
                  \<lparr>TemporaryExposureKey = array16 (take 16 (drop (20 * i) (content r))),
                   ENIntervalNumber = Uint32 (take 4 (drop (20 * i + 16) (content r))),
                   UploadedAt = zeroTime\<rparr>)))"
proof (intro conjI allI impI)
  show "(ParseDiagnosisKeys r = Inl ErrUnexpectedEOF) =
          (length (content r) = 0 \<or> length (content r) mod 20 \<noteq> 0)"
  proof
    assume rej: "ParseDiagnosisKeys r = Inl ErrUnexpectedEOF"
    show "length (content r) = 0 \<or> length (content r) mod 20 \<noteq> 0"
    proof (rule ccontr)
      assume "\<not> (length (content r) = 0 \<or> length (content r) mod 20 \<noteq> 0)"
      then have pos: "length (content r) \<noteq> 0" and dv: "length (content r) mod 20 = 0"
        by simp_all
      then obtain k where k: "length (content r) = 20 * k"
        by (auto simp add: mod_eq_0_iff_dvd elim: dvdE)
      with pos have "1 \<le> k" by (cases k) simp_all
      then have "ParseDiagnosisKeys r = Inr (map (frameKey (content r)) [0..<k])"
        using ParseDiagnosisKeys_frames [OF assms k] by simp
      with rej show False by simp
    qed
  next
    assume "length (content r) = 0 \<or> length (content r) mod 20 \<noteq> 0"
    then show "ParseDiagnosisKeys r = Inl ErrUnexpectedEOF"
      using assms by (rule ParseDiagnosisKeys_reject [rotated])
  qed
next
  fix k
  assume "1 \<le> k \<and> length (content r) = 20 * k"
  then have k1: "1 \<le> k" and len: "length (content r) = 20 * k"
    by simp_all
  have p: "ParseDiagnosisKeys r = Inr (map (frameKey (content r)) [0..<k])"
    using assms len k1 by (rule ParseDiagnosisKeys_frames)
  show "\<exists>ks. ParseDiagnosisKeys r = Inr ks \<and> length ks = k \<and>
          (\<forall>i<k. ks ! i =
             \<lparr>TemporaryExposureKey = array16 (take 16 (drop (20 * i) (content r))),
              ENIntervalNumber = Uint32 (take 4 (drop (20 * i + 16) (content r))),
              UploadedAt = zeroTime\<rparr>)"
    by (rule exI [of _ "map (frameKey (content r)) [0..<k]"]) (simp add: p frameKey_def)
qed

theorem ParseDiagnosisKeys_length_law_witness:
  "ending (NewReader [1, 2, 3, 4, 5, 6, 7, 8, 9, 10, 11, 12, 13, 14, 15, 16, 0, 0, 1, 2]) = EOF \<and>
   (\<exists>ks. ParseDiagnosisKeys
            (NewReader [1, 2, 3, 4, 5, 6, 7, 8, 9, 10, 11, 12, 13, 14, 15, 16, 0, 0, 1, 2]) = Inr ks \<and>
          length ks = 1 \<and>
          ks ! 0 = \<lparr>TemporaryExposureKey =
                      array16 [1, 2, 3, 4, 5, 6, 7, 8, 9, 10, 11, 12, 13, 14, 15, 16],
                    ENIntervalNumber = 258, UploadedAt = zeroTime\<rparr>) \<and>
   ending (NewReader [1, 2, 3]) = EOF \<and>
   ParseDiagnosisKeys (NewReader [1, 2, 3]) = Inl ErrUnexpectedEOF \<and>
   ParseDiagnosisKeys (NewReader []) = Inl ErrUnexpectedEOF"
proof -
  let ?b = "[1, 2, 3, 4, 5, 6, 7, 8, 9, 10, 11, 12, 13, 14, 15, 16, 0, 0, 1, 2] :: byte list"
  have e: "ending (NewReader ?b) = EOF" "ending (NewReader [1, 2, 3]) = EOF"
    "ending (NewReader []) = EOF"
    by (simp_all add: NewReader_def)
  have "1 \<le> (1::nat) \<and> length (content (NewReader ?b)) = 20 * 1"
    by (simp add: NewReader_def)
  with ParseDiagnosisKeys_length_law [OF e(1), THEN conjunct2, THEN spec, of 1]
  obtain ks where ks: "ParseDiagnosisKeys (NewReader ?b) = Inr ks" "length ks = 1"
      "\<forall>i<1. ks ! i =
             \<lparr>TemporaryExposureKey = array16 (take 16 (drop (20 * i) (content (NewReader ?b)))),
              ENIntervalNumber = Uint32 (take 4 (drop (20 * i + 16) (content (NewReader ?b)))),
              UploadedAt = zeroTime\<rparr>"
    by blast
  from ks(3) have "ks ! 0 = \<lparr>TemporaryExposureKey =
                      array16 [1, 2, 3, 4, 5, 6, 7, 8, 9, 10, 11, 12, 13, 14, 15, 16],
                    ENIntervalNumber = 258, UploadedAt = zeroTime\<rparr>"
    by (simp add: NewReader_def)
  with ks(1,2) have a: "\<exists>ks. ParseDiagnosisKeys (NewReader ?b) = Inr ks \<and> length ks = 1 \<and>
      ks ! 0 = \<lparr>TemporaryExposureKey =
                      array16 [1, 2, 3, 4, 5, 6, 7, 8, 9, 10, 11, 12, 13, 14, 15, 16],
                    ENIntervalNumber = 258, UploadedAt = zeroTime\<rparr>"
    by blast
  have b: "ParseDiagnosisKeys (NewReader [1, 2, 3]) = Inl ErrUnexpectedEOF"
    using ParseDiagnosisKeys_length_law [OF e(2)] by (simp add: NewReader_def)
  have c: "ParseDiagnosisKeys (NewReader []) = Inl ErrUnexpectedEOF"
    using ParseDiagnosisKeys_length_law [OF e(3)] by (simp add: NewReader_def)
  show ?thesis
    using e a b c by simp
qed

text \<open>
  Claim C3, as amended. For every sequence of records that is not empty, writing it with
  \<^verbatim>\<open>writeDiagnosisKeys\<close> into a buffer succeeds, and \<^verbatim>\<open>ParseDiagnosisKeys\<close> of the
  bytes written succeeds and returns the records in their order, each with \<open>UploadedAt\<close>
  set to the zero time: \<open>UploadedAt\<close> is not part of the byte stream. So the result is
  the sequence written when every \<open>UploadedAt\<close> in it is the zero time. The empty
  sequence is written as no bytes, which the parser rejects with
  \<^verbatim>\<open>io.ErrUnexpectedEOF\<close>: the counterexample.
\<close>

theorem roundtrip_nonempty:
  assumes "rs \<noteq> []"
  shows "fst (writeDiagnosisKeys Buffer_Write rs []) = None \<and>
         ParseDiagnosisKeys (NewReader (snd (writeDiagnosisKeys Buffer_Write rs [])))
           = Inr (map (\<lambda>k. k\<lparr>UploadedAt := zeroTime\<rparr>) rs) \<and>
         ((\<forall>k \<in> set rs. UploadedAt k = zeroTime) \<longrightarrow>
            ParseDiagnosisKeys (NewReader (snd (writeDiagnosisKeys Buffer_Write rs []))) = Inr rs)"
proof (intro conjI impI)
  show "fst (writeDiagnosisKeys Buffer_Write rs []) = None"
    by (simp add: writeDiagnosisKeys_Buffer)
  show rt: "ParseDiagnosisKeys (NewReader (snd (writeDiagnosisKeys Buffer_Write rs [])))
           = Inr (map (\<lambda>k. k\<lparr>UploadedAt := zeroTime\<rparr>) rs)"
    using assms by (rule roundtrip_Buffer)
  assume z: "\<forall>k \<in> set rs. UploadedAt k = zeroTime"
  have "map (\<lambda>k. k\<lparr>UploadedAt := zeroTime\<rparr>) rs = map (\<lambda>k. k) rs"
    by (rule map_cong) (simp_all add: z)
  then show "ParseDiagnosisKeys (NewReader (snd (writeDiagnosisKeys Buffer_Write rs []))) = Inr rs"
    using rt by simp
qed

theorem roundtrip_nonempty_witness:
  "[zeroDiagnosisKey\<lparr>ENIntervalNumber := 258\<rparr>, zeroDiagnosisKey] \<noteq> [] \<and>
   UploadedAt (zeroDiagnosisKey\<lparr>ENIntervalNumber := 258\<rparr>) = zeroTime \<and>
   UploadedAt zeroDiagnosisKey = zeroTime \<and>
   snd (writeDiagnosisKeys Buffer_Write
          [zeroDiagnosisKey\<lparr>ENIntervalNumber := 258\<rparr>, zeroDiagnosisKey] [])
     = [0, 0, 0, 0, 0, 0, 0, 0, 0, 0, 0, 0, 0, 0, 0, 0, 0, 0, 1, 2,
        0, 0, 0, 0, 0, 0, 0, 0, 0, 0, 0, 0, 0, 0, 0, 0, 0, 0, 0, 0] \<and>
   ParseDiagnosisKeys (NewReader (snd (writeDiagnosisKeys Buffer_Write
          [zeroDiagnosisKey\<lparr>ENIntervalNumber := 258\<rparr>, zeroDiagnosisKey] [])))
     = Inr [zeroDiagnosisKey\<lparr>ENIntervalNumber := 258\<rparr>, zeroDiagnosisKey]"
proof -
  let ?rs = "[zeroDiagnosisKey\<lparr>ENIntervalNumber := 258\<rparr>, zeroDiagnosisKey]"
  have ne: "?rs \<noteq> []" by simp
  have z: "\<forall>k \<in> set ?rs. UploadedAt k = zeroTime"
    by (simp add: zeroDiagnosisKey_def)
  have enc: "snd (writeDiagnosisKeys Buffer_Write ?rs [])
     = [0, 0, 0, 0, 0, 0, 0, 0, 0, 0, 0, 0, 0, 0, 0, 0, 0, 0, 1, 2,
        0, 0, 0, 0, 0, 0, 0, 0, 0, 0, 0, 0, 0, 0, 0, 0, 0, 0, 0, 0]"
  proof -
    have k0: "bytes_of (array16 []) = [0, 0, 0, 0, 0, 0, 0, 0, 0, 0, 0, 0, 0, 0, 0, 0]"
      by (simp add: bytes_of_array16 eval_nat_numeral)
    have p: "PutUint32 (make_bytes 4) 258 = [0, 0, 1, 2]" "PutUint32 (make_bytes 4) 0 = [0, 0, 0, 0]"
      by (simp_all add: PutUint32_make_bytes drop_bit_eq_div)
    show ?thesis
      by (simp add: Buffer_Write_def Let_def zeroDiagnosisKey_def k0 p)
  qed
  show ?thesis
    using roundtrip_nonempty [OF ne] z enc by (simp add: zeroDiagnosisKey_def)
qed

theorem roundtrip_counterexample:
  "ParseDiagnosisKeys (NewReader (snd (writeDiagnosisKeys Buffer_Write [] [])))
     = Inl ErrUnexpectedEOF \<and>
   ParseDiagnosisKeys (NewReader (snd (writeDiagnosisKeys Buffer_Write
       [zeroDiagnosisKey\<lparr>UploadedAt := 5\<rparr>] [])))
     = Inr [zeroDiagnosisKey] \<and>
   [zeroDiagnosisKey] \<noteq> [zeroDiagnosisKey\<lparr>UploadedAt := 5\<rparr>]"
proof (intro conjI)
  show "ParseDiagnosisKeys (NewReader (snd (writeDiagnosisKeys Buffer_Write [] [])))
          = Inl ErrUnexpectedEOF"
    by (simp add: ParseDiagnosisKeys_def ReadAll_def NewReader_def)
  show "ParseDiagnosisKeys (NewReader (snd (writeDiagnosisKeys Buffer_Write
       [zeroDiagnosisKey\<lparr>UploadedAt := 5\<rparr>] []))) = Inr [zeroDiagnosisKey]"
    using roundtrip_Buffer [of "[zeroDiagnosisKey\<lparr>UploadedAt := 5\<rparr>]"]
    by (simp add: zeroDiagnosisKey_def)
  show "[zeroDiagnosisKey] \<noteq> [zeroDiagnosisKey\<lparr>UploadedAt := 5\<rparr>]"
    by (simp add: zeroDiagnosisKey_def zeroTime_def)
qed

text \<open>
  Claim C6. Written into a buffer, the records give, in their order and with nothing
  between them, the 16 bytes of each key followed by the 4 bytes that
  \<^verbatim>\<open>PutUint32\<close> makes of the interval: \<open>b0, b1, b2, b3\<close> with
  \<open>b0 * 2^24 + b1 * 2^16 + b2 * 2^8 + b3\<close> the interval, the most significant byte
  first. For any writer, an error returned by \<^verbatim>\<open>writeDiagnosisKeys\<close> is an error that
  a \<^verbatim>\<open>Write\<close> of the writer returned, and with a writer that never fails
  \<^verbatim>\<open>writeDiagnosisKeys\<close> returns nil, whatever the records.
\<close>

theorem writeDiagnosisKeys_output:
  "writeDiagnosisKeys Buffer_Write rs buf =
     (None, buf @ concat (map (\<lambda>k. bytes_of (TemporaryExposureKey k) @
                                      PutUint32 (make_bytes 4) (ENIntervalNumber k)) rs)) \<and>
   (\<forall>k. length (bytes_of (TemporaryExposureKey (k :: DiagnosisKey))) = 16) \<and>
   (\<forall>v. \<exists>b0 b1 b2 b3. PutUint32 (make_bytes 4) v = [b0, b1, b2, b3] \<and>
          unat b0 * 2 ^ 24 + unat b1 * 2 ^ 16 + unat b2 * 2 ^ 8 + unat b3 = unat v) \<and>
   (fst (writeDiagnosisKeys w rs s) = Some e \<longrightarrow> (\<exists>p s'. snd (fst (w p s')) = Some e)) \<and>
   ((\<forall>p s'. snd (fst (w p s')) = None) \<longrightarrow> fst (writeDiagnosisKeys w rs s) = None)"
proof (intro conjI allI impI)
  show "writeDiagnosisKeys Buffer_Write rs buf =
     (None, buf @ concat (map (\<lambda>k. bytes_of (TemporaryExposureKey k) @
                                      PutUint32 (make_bytes 4) (ENIntervalNumber k)) rs))"
    by (rule writeDiagnosisKeys_Buffer)
next
  fix k :: DiagnosisKey
  show "length (bytes_of (TemporaryExposureKey k)) = 16"
    by (rule length_bytes_of)
next
  fix v :: uint32
  obtain b0 b1 b2 b3 where b: "PutUint32 (make_bytes 4) v = [b0, b1, b2, b3]"
    by (simp add: PutUint32_make_bytes)
  then show "\<exists>b0 b1 b2 b3. PutUint32 (make_bytes 4) v = [b0, b1, b2, b3] \<and>
          unat b0 * 2 ^ 24 + unat b1 * 2 ^ 16 + unat b2 * 2 ^ 8 + unat b3 = unat v"
    using PutUint32_big_endian [OF b] by blast
next
  assume "fst (writeDiagnosisKeys w rs s) = Some e"
  then show "\<exists>p s'. snd (fst (w p s')) = Some e"
    by (rule writeDiagnosisKeys_error_from_Write)
next
  assume "\<forall>p s'. snd (fst (w p s')) = None"
  then show "fst (writeDiagnosisKeys w rs s) = None"
    by (simp add: writeDiagnosisKeys_no_fault)
qed

theorem writeDiagnosisKeys_output_witness:
  "fst (writeDiagnosisKeys (limitedWrite 16) [zeroDiagnosisKey] []) = Some (ErrorNew ''short write'') \<and>
   (\<exists>p s'. snd (fst (limitedWrite 16 p s')) = Some (ErrorNew ''short write'')) \<and>
   (\<forall>p s'. snd (fst (Buffer_Write p s')) = None) \<and>
   writeDiagnosisKeys Buffer_Write [zeroDiagnosisKey\<lparr>ENIntervalNumber := 258\<rparr>] [9] =
     (None, [9, 0, 0, 0, 0, 0, 0, 0, 0, 0, 0, 0, 0, 0, 0, 0, 0, 0, 0, 1, 2])"
proof -
  have k0: "bytes_of (array16 []) = [0, 0, 0, 0, 0, 0, 0, 0, 0, 0, 0, 0, 0, 0, 0, 0]"
    by (simp add: bytes_of_array16 eval_nat_numeral)
  have p: "PutUint32 (make_bytes 4) 258 = [0, 0, 1, 2]" "PutUint32 (make_bytes 4) 0 = [0, 0, 0, 0]"
    by (simp_all add: PutUint32_make_bytes drop_bit_eq_div)
  have f: "fst (writeDiagnosisKeys (limitedWrite 16) [zeroDiagnosisKey] [])
             = Some (ErrorNew ''short write'')"
    by (simp add: limitedWrite_def zeroDiagnosisKey_def k0 p Let_def)
  have b: "\<forall>p s'. snd (fst (Buffer_Write p s')) = None"
    by (simp add: Buffer_Write_def)
  have 1: "\<exists>p s'. snd (fst (limitedWrite 16 p s')) = Some (ErrorNew ''short write'')"
    using writeDiagnosisKeys_output
      [of "[zeroDiagnosisKey]" "[]" "limitedWrite 16" "[]" "ErrorNew ''short write''"] f
    by blast
  have 2: "writeDiagnosisKeys Buffer_Write [zeroDiagnosisKey\<lparr>ENIntervalNumber := 258\<rparr>] [9] =
     (None, [9, 0, 0, 0, 0, 0, 0, 0, 0, 0, 0, 0, 0, 0, 0, 0, 0, 0, 0, 1, 2])"
    using writeDiagnosisKeys_output
      [of "[zeroDiagnosisKey\<lparr>ENIntervalNumber := 258\<rparr>]" "[9]" Buffer_Write "[9]" EOF]
    by (simp add: zeroDiagnosisKey_def k0 p)
  show ?thesis
    using f b 1 2 by simp
qed

text \<open>
  Claim C1, as amended. \<^verbatim>\<open>Service.StoreDiagnosisKeys\<close> does not compare the length of the
  batch with the maximum batch size: for a batch longer than \<^verbatim>\<open>MaxUploadBatchSize\<close>
  too it calls \<^verbatim>\<open>StoreDiagnosisKeys\<close> of the repository with the batch, returns the
  error that call returns (nil when it succeeds), and leaves the repository in the state
  that call produced.
\<close>

theorem StoreDiagnosisKeys_oversized:
  assumes "maxUploadBatchSize s < length diagKeys"
  shows "fst (StoreDiagnosisKeys s now diagKeys w)
           = fst (repoStoreDiagnosisKeys (repo s) diagKeys now (repoState w)) \<and>
         repoState (snd (StoreDiagnosisKeys s now diagKeys w))
           = snd (repoStoreDiagnosisKeys (repo s) diagKeys now (repoState w))"
  by (rule StoreDiagnosisKeys_repo)

theorem StoreDiagnosisKeys_oversized_witness:
  "maxUploadBatchSize exampleService < length (replicate 15 zeroDiagnosisKey) \<and>
   fst (StoreDiagnosisKeys exampleService 7 (replicate 15 zeroDiagnosisKey) emptyWorld) = None \<and>
   repoState (snd (StoreDiagnosisKeys exampleService 7 (replicate 15 zeroDiagnosisKey) emptyWorld))
     = [(replicate 15 zeroDiagnosisKey, 7)]"
proof -
  have h: "maxUploadBatchSize exampleService < length (replicate 15 zeroDiagnosisKey)"
    by (simp add: exampleService_def)
  show ?thesis
    using h StoreDiagnosisKeys_oversized [OF h, of 7 emptyWorld]
    by (simp add: exampleService_def emptyWorld_def listRepository_def)
qed

theorem StoreDiagnosisKeys_oversized_counterexample:
  "MaxUploadBatchSize exampleService < length (replicate 15 zeroDiagnosisKey) \<and>
   StoreDiagnosisKeys exampleService 7 (replicate 15 zeroDiagnosisKey) emptyWorld =
     (None, emptyWorld\<lparr>repoState := [(replicate 15 zeroDiagnosisKey, 7)],
                         goroutines := [CacheAddWorker (replicate 15 zeroDiagnosisKey) 7]\<rparr>) \<and>
   repoState emptyWorld = []"
  by (simp add: StoreDiagnosisKeys_example)
     (simp add: MaxUploadBatchSize_def exampleService_def emptyWorld_def)

text \<open>
  Claim C2, as amended. \<^verbatim>\<open>Service.StoreDiagnosisKeys\<close> does not test the batch for
  emptiness: for the empty batch it calls \<^verbatim>\<open>StoreDiagnosisKeys\<close> of the repository with
  the empty batch, returns the error that call returns (nil when it succeeds), and
  leaves the repository in the state that call produced.
\<close>

theorem StoreDiagnosisKeys_empty:
  "fst (StoreDiagnosisKeys s now [] w)
     = fst (repoStoreDiagnosisKeys (repo s) [] now (repoState w)) \<and>
   repoState (snd (StoreDiagnosisKeys s now [] w))
     = snd (repoStoreDiagnosisKeys (repo s) [] now (repoState w))"
  by (rule StoreDiagnosisKeys_repo)

theorem StoreDiagnosisKeys_empty_witness:
  "fst (StoreDiagnosisKeys exampleService 7 [] emptyWorld) = None \<and>
   repoState (snd (StoreDiagnosisKeys exampleService 7 [] emptyWorld)) = [([], 7)]"
  using StoreDiagnosisKeys_empty [of exampleService 7 emptyWorld]
  by (simp add: exampleService_def emptyWorld_def listRepository_def)

theorem StoreDiagnosisKeys_empty_counterexample:
  "StoreDiagnosisKeys exampleService 7 [] emptyWorld =
     (None, emptyWorld\<lparr>repoState := [([], 7)], goroutines := [CacheAddWorker [] 7]\<rparr>) \<and>
   repoState emptyWorld = []"
  by (simp add: StoreDiagnosisKeys_example) (simp add: emptyWorld_def)

text \<open>
  Claim C7. When the write to the repository inside \<^verbatim>\<open>Service.StoreDiagnosisKeys\<close>
  fails with an error, that error is what the call returns, and no goroutine is started:
  nothing is added to the cache for the batch, and nothing is logged.
\<close>

theorem StoreDiagnosisKeys_repository_failure:
  assumes "fst (repoStoreDiagnosisKeys (repo s) diagKeys now (repoState w)) = Some e"
  shows "fst (StoreDiagnosisKeys s now diagKeys w) = Some e \<and>
         goroutines (snd (StoreDiagnosisKeys s now diagKeys w)) = goroutines w \<and>
         cacheState (snd (StoreDiagnosisKeys s now diagKeys w)) = cacheState w \<and>
         logged (snd (StoreDiagnosisKeys s now diagKeys w)) = logged w"
  using assms
  by (cases "repoStoreDiagnosisKeys (repo s) diagKeys now (repoState w)")
     (simp add: StoreDiagnosisKeys_def Let_def)

theorem StoreDiagnosisKeys_repository_failure_witness:
  "fst (repoStoreDiagnosisKeys (repo (brokenService (ErrorNew ''database is down'')))
          [zeroDiagnosisKey] 7 (repoState emptyWorld)) = Some (ErrorNew ''database is down'') \<and>
   fst (StoreDiagnosisKeys (brokenService (ErrorNew ''database is down'')) 7 [zeroDiagnosisKey]
          emptyWorld) = Some (ErrorNew ''database is down'') \<and>
   goroutines (snd (StoreDiagnosisKeys (brokenService (ErrorNew ''database is down'')) 7
          [zeroDiagnosisKey] emptyWorld)) = [] \<and>
   cacheState (snd (StoreDiagnosisKeys (brokenService (ErrorNew ''database is down'')) 7
          [zeroDiagnosisKey] emptyWorld)) = ([], zeroTime)"
proof -
  have h: "fst (repoStoreDiagnosisKeys (repo (brokenService (ErrorNew ''database is down'')))
          [zeroDiagnosisKey] 7 (repoState emptyWorld)) = Some (ErrorNew ''database is down'')"
    by (simp add: brokenService_def failingRepository_def)
  show ?thesis
    using h StoreDiagnosisKeys_repository_failure [OF h] by (simp add: emptyWorld_def)
qed

text \<open>
  Claim C8. With a nil \<^verbatim>\<open>Config.Logger\<close>, \<^verbatim>\<open>NewService\<close> returns the error
  "diag: logger cannot be nil" and no service, before it touches the repository or the
  cache; so a \<^verbatim>\<open>Config\<close> that sets only the repository, the cache and the batch size
  constructs no service.
\<close>

theorem NewService_nil_logger:
  assumes "cfgLogger cfg = None"
  shows "NewService memoryCache cfg w = (Inl (ErrorNew ''diag: logger cannot be nil''), w)"
  using assms by (simp add: NewService_def)

theorem NewService_nil_logger_witness:
  "cfgLogger (exampleConfig\<lparr>cfgLogger := None\<rparr>) = None \<and>
   NewService (listCache, ([], zeroTime)) (exampleConfig\<lparr>cfgLogger := None\<rparr>) emptyWorld
     = (Inl (ErrorNew ''diag: logger cannot be nil''), emptyWorld)"
proof -
  have h: "cfgLogger (exampleConfig\<lparr>cfgLogger := None\<rparr>) = None"
    by simp
  show ?thesis
    using h NewService_nil_logger [OF h] by simp
qed

text \<open>
  Claim C5, as amended. When \<^verbatim>\<open>FindAllDiagnosisKeys\<close> of the repository succeeds and its
  \<^verbatim>\<open>LastModified\<close> then reports \<open>ErrNilDiagKeys\<close>, \<^verbatim>\<open>hydrateCache\<close> returns nil and
  leaves the cache as it was. An error of \<^verbatim>\<open>FindAllDiagnosisKeys\<close>, \<open>ErrNilDiagKeys\<close>
  like any other, is returned by \<^verbatim>\<open>hydrateCache\<close> as its error.
\<close>

theorem hydrateCache_no_records:
  "(snd (fst (repoFindAllDiagnosisKeys (repo s) (repoState w))) = None \<and>
    snd (fst (repoLastModified (repo s)
                (snd (repoFindAllDiagnosisKeys (repo s) (repoState w))))) = Some ErrNilDiagKeys
      \<longrightarrow> fst (hydrateCache s w) = None \<and> cacheState (snd (hydrateCache s w)) = cacheState w) \<and>
   (snd (fst (repoFindAllDiagnosisKeys (repo s) (repoState w))) = Some e
      \<longrightarrow> fst (hydrateCache s w) = Some e)"
  using hydrateCache_LastModified_nil [of s w] hydrateCache_FindAll_error [of s w e]
  by blast

theorem hydrateCache_no_records_witness:
  "snd (fst (repoFindAllDiagnosisKeys (repo exampleService) (repoState emptyWorld))) = None \<and>
   snd (fst (repoLastModified (repo exampleService)
          (snd (repoFindAllDiagnosisKeys (repo exampleService) (repoState emptyWorld)))))
     = Some ErrNilDiagKeys \<and>
   fst (hydrateCache exampleService emptyWorld) = None \<and>
   cacheState (snd (hydrateCache exampleService emptyWorld)) = ([], zeroTime) \<and>
   snd (fst (repoFindAllDiagnosisKeys (repo (brokenService (ErrorNew ''database is down'')))
          (repoState emptyWorld))) = Some (ErrorNew ''database is down'') \<and>
   fst (hydrateCache (brokenService (ErrorNew ''database is down'')) emptyWorld)
     = Some (ErrorNew ''database is down'')"
proof -
  have a: "snd (fst (repoFindAllDiagnosisKeys (repo exampleService) (repoState emptyWorld))) = None"
    and b: "snd (fst (repoLastModified (repo exampleService)
          (snd (repoFindAllDiagnosisKeys (repo exampleService) (repoState emptyWorld)))))
     = Some ErrNilDiagKeys"
    by (simp_all add: exampleService_def emptyWorld_def listRepository_def)
  have c: "snd (fst (repoFindAllDiagnosisKeys (repo (brokenService (ErrorNew ''database is down'')))
          (repoState emptyWorld))) = Some (ErrorNew ''database is down'')"
    by (simp add: brokenService_def failingRepository_def)
  have 1: "fst (hydrateCache exampleService emptyWorld) = None \<and>
           cacheState (snd (hydrateCache exampleService emptyWorld)) = cacheState emptyWorld"
    using hydrateCache_no_records [of exampleService emptyWorld EOF] a b by blast
  have 2: "fst (hydrateCache (brokenService (ErrorNew ''database is down'')) emptyWorld)
     = Some (ErrorNew ''database is down'')"
    using hydrateCache_no_records
      [of "brokenService (ErrorNew ''database is down'')" emptyWorld "ErrorNew ''database is down''"] c
    by blast
  show ?thesis
    using a b c 1 2 by (simp add: emptyWorld_def)
qed

theorem hydrateCache_no_records_counterexample:
  "snd (fst (repoFindAllDiagnosisKeys (repo (brokenService ErrNilDiagKeys))
          (repoState emptyWorld))) = Some ErrNilDiagKeys \<and>
   hydrateCache (brokenService ErrNilDiagKeys) emptyWorld = (Some ErrNilDiagKeys, emptyWorld)"
  by (simp add: hydrateCache_def brokenService_def failingRepository_def emptyWorld_def Let_def)

text \<open>
  Claim C9. \<^verbatim>\<open>refreshCache\<close> has returned exactly when the events it received hold a
  closing of the context's \<^verbatim>\<open>Done\<close> channel: over ticks alone it is still running,
  however many they are and whatever each hydration did, and at the first \<^verbatim>\<open>Done\<close>
  after any number of ticks it returns \<^verbatim>\<open>ctx.Err()\<close>. Every tick before that adds one
  entry to the log. On a tick where \<^verbatim>\<open>hydrateCache\<close> fails, the error is logged with
  "Could not refresh cache" and the loop goes on with the events that follow; on a tick
  where the seek fails, the error is logged with "Could not seek cache" and the loop
  goes on likewise.
\<close>

theorem refreshCache_until_cancelled:
  "((fst (refreshCache s evs w) = None) = (\<forall>ctxErr. CtxDone ctxErr \<notin> set evs)) \<and>
   fst (refreshCache s (replicate n Tick @ CtxDone ctxErr # rest) w) = Some ctxErr \<and>
   length (logged (snd (refreshCache s evs w)))
     = length (logged w) + length (takeWhile (\<lambda>ev. ev = Tick) evs) \<and>
   (fst (hydrateCache s w) = Some err \<longrightarrow>
      refreshCache s (Tick # evs) w =
        refreshCache s evs
          (logError ''Could not refresh cache'' [ErrorField err] (snd (hydrateCache s w)))) \<and>
   (fst (hydrateCache s w) = None \<and>
    snd (Seek (cacheReadSeeker (cache s) zeroTime (cacheState (snd (hydrateCache s w))))
           0 SeekEnd) = Some err \<longrightarrow>
      refreshCache s (Tick # evs) w =
        refreshCache s evs
          (logError ''Could not seek cache'' [ErrorField err] (snd (hydrateCache s w))))"
  using refreshCache_running [of s evs w] refreshCache_cancelled [of s n ctxErr rest w]
    refreshCache_logged [of s evs w] refreshCache_hydrate_failure [of s w err evs]
    refreshCache_seek_failure [of s w err evs]
  by blast

theorem refreshCache_until_cancelled_witness:
  "fst (hydrateCache (brokenService (ErrorNew ''database is down'')) emptyWorld)
     = Some (ErrorNew ''database is down'') \<and>
   refreshCache (brokenService (ErrorNew ''database is down''))
       [Tick, CtxDone Canceled, Tick] emptyWorld =
     (Some Canceled,
      emptyWorld\<lparr>logged := [(ErrorLevel, ''Could not refresh cache'',
                                [ErrorField (ErrorNew ''database is down'')])]\<rparr>) \<and>
   fst (hydrateCache (unseekableService (ErrorNew ''closed'')) emptyWorld) = None \<and>
   snd (Seek (cacheReadSeeker (cache (unseekableService (ErrorNew ''closed''))) zeroTime
          (cacheState (snd (hydrateCache (unseekableService (ErrorNew ''closed'')) emptyWorld))))
          0 SeekEnd) = Some (ErrorNew ''closed'') \<and>
   refreshCache (unseekableService (ErrorNew ''closed'')) [Tick, CtxDone Canceled] emptyWorld =
     (Some Canceled,
      emptyWorld\<lparr>logged := [(ErrorLevel, ''Could not seek cache'',
                                [ErrorField (ErrorNew ''closed'')])]\<rparr>) \<and>
   fst (refreshCache exampleService [Tick, Tick] emptyWorld) = None \<and>
   length (logged (snd (refreshCache exampleService [Tick, Tick] emptyWorld))) = 2"
proof -
  let ?b = "brokenService (ErrorNew ''database is down'')"
  let ?u = "unseekableService (ErrorNew ''closed'')"
  have hb: "hydrateCache ?b emptyWorld = (Some (ErrorNew ''database is down''), emptyWorld)"
    by (simp add: hydrateCache_def brokenService_def failingRepository_def emptyWorld_def Let_def)
  have hu: "hydrateCache ?u emptyWorld = (None, emptyWorld)"
    by (simp add: hydrateCache_def unseekableService_def listRepository_def emptyWorld_def Let_def)
  have su: "snd (Seek (cacheReadSeeker (cache ?u) zeroTime
          (cacheState (snd (hydrateCache ?u emptyWorld)))) 0 SeekEnd) = Some (ErrorNew ''closed'')"
    by (simp add: hu) (simp add: unseekableService_def)
  have 1: "refreshCache ?b [Tick, CtxDone Canceled, Tick] emptyWorld =
     (Some Canceled,
      emptyWorld\<lparr>logged := [(ErrorLevel, ''Could not refresh cache'',
                                [ErrorField (ErrorNew ''database is down'')])]\<rparr>)"
    using refreshCache_until_cancelled
      [of ?b "[CtxDone Canceled, Tick]" emptyWorld 0 Canceled "[]" "ErrorNew ''database is down''"]
    by (simp add: hb logError_def) (simp add: emptyWorld_def)
  have 2: "refreshCache ?u [Tick, CtxDone Canceled] emptyWorld =
     (Some Canceled,
      emptyWorld\<lparr>logged := [(ErrorLevel, ''Could not seek cache'',
                                [ErrorField (ErrorNew ''closed'')])]\<rparr>)"
    using refreshCache_until_cancelled
      [of ?u "[CtxDone Canceled]" emptyWorld 0 Canceled "[]" "ErrorNew ''closed''"] su
    by (simp add: hu logError_def) (simp add: emptyWorld_def)
  have 3: "fst (refreshCache exampleService [Tick, Tick] emptyWorld) = None \<and>
     length (logged (snd (refreshCache exampleService [Tick, Tick] emptyWorld))) = 2"
    using refreshCache_until_cancelled
      [of exampleService "[Tick, Tick]" emptyWorld 0 Canceled "[]" EOF]
    by (simp add: emptyWorld_def)
  show ?thesis
    using hb hu su 1 2 3 by simp
qed

text \<open>
  Claim C10. Whenever \<^verbatim>\<open>NewService\<close> returns a service: if \<^verbatim>\<open>Config.Cache\<close> is nil, the
  cache of the service is a \<^verbatim>\<open>MemoryCache\<close>, and \<^verbatim>\<open>NewService\<close> does what it does for
  the same \<^verbatim>\<open>Config\<close> with its cache set to a \<^verbatim>\<open>MemoryCache\<close> holding the zero value
  \<^verbatim>\<open>MemoryCache{}\<close>; and if \<^verbatim>\<open>Config.MaxUploadBatchSize\<close> is zero,
  \<^verbatim>\<open>MaxUploadBatchSize()\<close> of the service is 14.
\<close>

theorem NewService_defaults:
  assumes "NewService memoryCache cfg w = (Inr svc, w')"
  shows "(cfgCache cfg = None \<longrightarrow>
            cache svc = fst memoryCache \<and>
            NewService memoryCache cfg w =
              NewService memoryCache (cfg\<lparr>cfgCache := Some (fst memoryCache)\<rparr>)
                (w\<lparr>cacheState := snd memoryCache\<rparr>)) \<and>
         (cfgMaxUploadBatchSize cfg = 0 \<longrightarrow> MaxUploadBatchSize svc = 14)"
proof -
  obtain lg where lg: "cfgLogger cfg = Some lg"
    using assms by (cases "cfgLogger cfg") (simp_all add: NewService_def)
  let ?svc = "\<lparr>repo = cfgRepository cfg,
               cache = (case cfgCache cfg of None \<Rightarrow> fst memoryCache | Some c \<Rightarrow> c),
               maxUploadBatchSize =
                 (if cfgMaxUploadBatchSize cfg = 0 then defaultMaxUploadBatchSize
                  else cfgMaxUploadBatchSize cfg),
               logger = lg\<rparr>"
  have svc: "svc = ?svc"
    using assms
    by (auto simp add: NewService_def lg Let_def split: prod.splits option.splits)
  have same: "cfgCache cfg = None \<Longrightarrow>
      NewService memoryCache cfg w =
        NewService memoryCache (cfg\<lparr>cfgCache := Some (fst memoryCache)\<rparr>)
          (w\<lparr>cacheState := snd memoryCache\<rparr>)"
    by (simp add: NewService_def lg)
  show ?thesis
    using same by (simp add: svc MaxUploadBatchSize_def defaultMaxUploadBatchSize_def)
qed

theorem NewService_defaults_witness:
  "NewService (listCache, ([], zeroTime)) exampleConfig
       (emptyWorld\<lparr>cacheState := ([zeroDiagnosisKey], 3)\<rparr>) =
     (Inr exampleService,
      emptyWorld\<lparr>logged := [(InfoLevel, ''Cache hydrated.'', [Int64Field ''size'' 0])],
                  goroutines := [RefreshWorker]\<rparr>) \<and>
   cfgCache exampleConfig = None \<and>
   cfgMaxUploadBatchSize exampleConfig = 0 \<and>
   cache exampleService = fst (listCache, ([], zeroTime)) \<and>
   MaxUploadBatchSize exampleService = 14"
proof -
  let ?w = "emptyWorld\<lparr>cacheState := ([zeroDiagnosisKey], 3)\<rparr>"
  let ?w' = "emptyWorld\<lparr>logged := [(InfoLevel, ''Cache hydrated.'', [Int64Field ''size'' 0])],
                  goroutines := [RefreshWorker]\<rparr>"
  have h: "hydrateCache exampleService emptyWorld = (None, emptyWorld)"
    by (simp add: hydrateCache_def exampleService_def listRepository_def emptyWorld_def Let_def)
  have sk: "Seek (cacheReadSeeker listCache zeroTime ([], zeroTime)) 0 SeekEnd = (0, None)"
    by (simp add: listCache_def)
  have n: "NewService (listCache, ([], zeroTime)) exampleConfig ?w = (Inr exampleService, ?w')"
    using h sk
    by (simp add: NewService_def exampleConfig_def exampleService_def [symmetric]
          defaultMaxUploadBatchSize_def)
       (simp add: emptyWorld_def exampleService_def logInfo_def)
  show ?thesis
    using n NewService_defaults [OF n] by (simp add: exampleConfig_def)
qed

end
